theory Spec2Isabelle
  imports Complex_Main
begin

section \<open>Frame sampling (lazylist) and desync scanning of ssfunc/util.py\<close>

text \<open>
  The embedding follows \<^verbatim>\<open>src/ssfunc/util.py\<close>. A clip is what the two entry points
  read from it: the per-frame statistic (\<^verbatim>\<open>PlaneStatsAverage\<close>, \<^verbatim>\<open>PlaneStatsDiff\<close>)
  and the frame rate. The statistics are idealised as reals (the comparisons of the source
  are exact on the values they compare; rounding of literals and NaN are outside the
  model); the float arithmetic of the threshold, line 61, is modelled in IEEE double
  precision. Python ints are \<open>int\<close>, and every exception the code can raise is a value
  of \<open>error\<close>.
\<close>

subsection \<open>Data\<close>

datatype error = IndexError | ZeroDivisionError | OverflowError | ValueError

record clip =
  luma :: "real list"
  fps_num :: int
  fps_den :: int

text \<open>The two lists \<^verbatim>\<open>dark\<close> and \<^verbatim>\<open>light\<close> that the callback appends to.\<close>

record buckets =
  dark :: "int list"
  light :: "int list"

subsection \<open>Classification: checkclip and the render of every frame\<close>

text \<open>
  \<^verbatim>\<open>checkclip(n, f, clip)\<close>, lines 36 to 46: \<open>avg\<close> is the frame property
  \<^verbatim>\<open>PlaneStatsAverage\<close>; the chained comparison \<^verbatim>\<open>a <= avg <= b\<close> is a conjunction;
  the second range is tested only when the first fails (\<^verbatim>\<open>elif\<close>).
\<close>

definition checkclip :: "int \<Rightarrow> real \<Rightarrow> buckets \<Rightarrow> buckets" where
  "checkclip n avg b =
     (if 0.062746 \<le> avg \<and> avg \<le> 0.380000 then b\<lparr>dark := dark b @ [n]\<rparr>
      else if 0.450000 \<le> avg \<and> avg \<le> 0.800000 then b\<lparr>light := light b @ [n]\<rparr>
      else b)"

text \<open>
  \<^verbatim>\<open>clip_async_render(eval_frames)\<close>, lines 48 to 53, requests every frame of the clip,
  and each request runs the callback once with the frame's number and statistic. The
  frames are taken in ascending order here; the lists are sorted right after (lines 55
  and 56), so the order of the callbacks does not reach the rest of the function.
\<close>

definition evaluate_clip :: "real list \<Rightarrow> buckets" where
  "evaluate_clip lumas =
     fold (\<lambda>(n, avg). checkclip (int n) avg) (enumerate 0 lumas) \<lparr>dark = [], light = []\<rparr>"

subsection \<open>Deduplication\<close>

text \<open>\<^verbatim>\<open>dark[0]\<close>: indexing an empty list raises \<^verbatim>\<open>IndexError\<close>.\<close>

definition first :: "int list \<Rightarrow> error + int" where
  "first xs = (case xs of [] \<Rightarrow> Inl IndexError | x # _ \<Rightarrow> Inr x)"

subsubsection \<open>Double precision\<close>

text \<open>
  A finite double is a pair \<open>(m, e)\<close> that stands for \<open>m * 2 ^ e\<close>, with
  \<open>\<bar>m\<bar> \<le> 2 ^ 53\<close> and \<open>- 1074 \<le> e \<le> 971\<close>. The sign of zero is not kept: it has
  no effect on the integer that \<^verbatim>\<open>round\<close> returns.
\<close>

type_synonym double = "int \<times> int"

text \<open>\<open>n / d\<close> for \<open>d > 0\<close>, rounded to the nearest integer, a tie to the even one.\<close>

definition div_half_even :: "int \<Rightarrow> int \<Rightarrow> int" where
  "div_half_even n d =
     (let f = n div d; r = n mod d in
      if 2 * r < d then f
      else if d < 2 * r then f + 1
      else if even f then f else f + 1)"

text \<open>The number of binary digits of a positive integer.\<close>

function bit_length :: "int \<Rightarrow> int" where
  "bit_length n = (if n \<le> 0 then 0 else bit_length (n div 2) + 1)"
  by pat_completeness auto
termination
  by (relation "measure nat") auto

declare bit_length.simps [simp del]

text \<open>
  The binary exponent of \<open>p / r\<close> for positive \<open>p\<close> and \<open>r\<close>: the \<open>k\<close> with
  \<open>2 ^ k \<le> p / r < 2 ^ (k + 1)\<close>. The difference of the bit lengths is \<open>k\<close> or \<open>k + 1\<close>.
\<close>

definition ilog2 :: "int \<Rightarrow> int \<Rightarrow> int" where
  "ilog2 p r =
     (let k = bit_length p - bit_length r in
      if (if 0 \<le> k then r * 2 ^ nat k \<le> p else r \<le> p * 2 ^ nat (- k)) then k else k - 1)"

text \<open>
  The double nearest to the fraction \<open>p / r\<close> (\<open>r > 0\<close>), a tie to the even significand:
  the exponent leaves 53 significant bits and is at least \<open>- 1074\<close> (subnormal numbers);
  \<open>None\<close> when the rounded magnitude reaches \<open>2 ^ 1024\<close>, which is beyond the largest
  double.
\<close>

definition round_double :: "int \<Rightarrow> int \<Rightarrow> double option" where
  "round_double p r =
     (if p = 0 then Some (0, 0)
      else (let e = max (ilog2 \<bar>p\<bar> r - 52) (- 1074);
                m = (if 0 \<le> e then div_half_even \<bar>p\<bar> (r * 2 ^ nat e)
                     else div_half_even (\<bar>p\<bar> * 2 ^ nat (- e)) r)
            in if 971 < e \<or> (e = 971 \<and> m = 2 ^ 53) then None else Some (sgn p * m, e)))"

text \<open>
  \<^verbatim>\<open>a / b\<close> on two ints: \<^verbatim>\<open>ZeroDivisionError\<close> on a zero divisor, else the correctly
  rounded quotient, \<^verbatim>\<open>OverflowError\<close> when it is too large for a float.
\<close>

definition py_truediv :: "int \<Rightarrow> int \<Rightarrow> error + double" where
  "py_truediv a b =
     (if b = 0 then Inl ZeroDivisionError
      else (case round_double (a * sgn b) \<bar>b\<bar> of
              None \<Rightarrow> Inl OverflowError
            | Some q \<Rightarrow> Inr q))"

text \<open>
  The conversion of the int operand of a float multiplication: \<^verbatim>\<open>OverflowError\<close> when
  the int is too large for a float.
\<close>

definition py_float :: "int \<Rightarrow> error + double" where
  "py_float n =
     (case round_double n 1 of
        None \<Rightarrow> Inl OverflowError
      | Some d \<Rightarrow> Inr d)"

text \<open>
  The product of two doubles is the exact product, rounded; an overflow raises nothing
  and gives an infinity, which is \<open>None\<close> here.
\<close>

definition float_mul :: "double \<Rightarrow> double \<Rightarrow> double option" where
  "float_mul x y =
     (case x of (m1, e1) \<Rightarrow> case y of (m2, e2) \<Rightarrow>
        if 0 \<le> e1 + e2 then round_double (m1 * m2 * 2 ^ nat (e1 + e2)) 1
        else round_double (m1 * m2) (2 ^ nat (- (e1 + e2))))"

text \<open>
  \<^verbatim>\<open>round(x)\<close> on a float: the nearest integer, a tie to the even one;
  \<^verbatim>\<open>OverflowError\<close> on an infinity.
\<close>

definition py_round :: "double option \<Rightarrow> error + int" where
  "py_round x =
     (case x of
        None \<Rightarrow> Inl OverflowError
      | Some (m, e) \<Rightarrow>
          Inr (if 0 \<le> e then m * 2 ^ nat e else div_half_even m (2 ^ nat (- e))))"

text \<open>
  Line 61, \<^verbatim>\<open>thr = round(clip.fps_num / clip.fps_den * diff_thr)\<close>: the division first,
  then the conversion of \<^verbatim>\<open>diff_thr\<close>, the product, and the rounding.
\<close>

definition compute_thr :: "clip \<Rightarrow> int \<Rightarrow> error + int" where
  "compute_thr c diff_thr =
     (case py_truediv (fps_num c) (fps_den c) of
        Inl e \<Rightarrow> Inl e
      | Inr q \<Rightarrow>
        (case py_float diff_thr of
           Inl e \<Rightarrow> Inl e
         | Inr d \<Rightarrow> py_round (float_mul q d)))"

subsubsection \<open>The two loops\<close>

text \<open>
  The inner loop, lines 70 to 74: \<^verbatim>\<open>for y in checklist\<close> with the \<^verbatim>\<open>break\<close>. The
  result tells whether the branch that appends \<open>x\<close> was taken.
\<close>

fun scan_checklist :: "int \<Rightarrow> int \<Rightarrow> int \<Rightarrow> int list \<Rightarrow> bool" where
  "scan_checklist x thr lastval [] = False"
| "scan_checklist x thr lastval (y # ys) =
     (if x \<ge> y + thr \<and> x \<ge> lastval + thr then True
      else scan_checklist x thr lastval ys)"

text \<open>
  One round of the outer loop, lines 65 to 74, on the state
  (\<^verbatim>\<open>dark_dedupe\<close>, \<^verbatim>\<open>lastvald\<close>): \<^verbatim>\<open>checklist = dark[0:i]\<close>, \<^verbatim>\<open>x = dark[i]\<close>.
\<close>

definition dedupe_step :: "int list \<Rightarrow> int \<Rightarrow> nat \<Rightarrow> int list \<times> int \<Rightarrow> int list \<times> int" where
  "dedupe_step bucket thr i st =
     (case st of (dedupe, lastval) \<Rightarrow>
        (let checklist = take i bucket; x = bucket ! i in
         if scan_checklist x thr lastval checklist then (dedupe @ [x], x)
         else (dedupe, lastval)))"

text \<open>
  The outer loop \<^verbatim>\<open>for i in range(1, len(dark))\<close>, started from
  \<^verbatim>\<open>dark_dedupe = [dark[0]]\<close> and \<^verbatim>\<open>lastvald = dark[0]\<close>; the same text serves the light
  list (lines 76 to 85). \<open>x0\<close> is the value of \<^verbatim>\<open>dark[0]\<close>.
\<close>

definition dedupe_loop :: "int list \<Rightarrow> int \<Rightarrow> int \<Rightarrow> int list" where
  "dedupe_loop bucket thr x0 =
     fst (fold (dedupe_step bucket thr) [1..<length bucket] ([x0], x0))"

text \<open>
  Lines 55 to 85 together: both lists are sorted, their first elements are read (dark
  first), the threshold is computed, and both loops run.
\<close>

definition dedupe_buckets :: "clip \<Rightarrow> int \<Rightarrow> error + (int list \<times> int list)" where
  "dedupe_buckets c diff_thr =
     (let b = evaluate_clip (luma c); dark_s = sort (dark b); light_s = sort (light b) in
      case first dark_s of Inl e \<Rightarrow> Inl e | Inr d0 \<Rightarrow>
      (case first light_s of Inl e \<Rightarrow> Inl e | Inr l0 \<Rightarrow>
      (case compute_thr c diff_thr of Inl e \<Rightarrow> Inl e | Inr thr \<Rightarrow>
         Inr (dedupe_loop dark_s thr d0, dedupe_loop light_s thr l0))))"

subsection \<open>The random module\<close>

text \<open>
  Python's \<^verbatim>\<open>random\<close> module is not part of the repository; it is a parameter. The
  module holds one generator state (\<open>'g\<close>). \<^verbatim>\<open>random.seed(a)\<close> replaces it by a state
  that depends on \<open>a\<close> alone; \<^verbatim>\<open>random.sample(population, k)\<close> selects \<open>k\<close> positions of
  a population of \<open>n\<close> elements from the state, and advances the state.
\<close>

record 'g rng =
  seed_state :: "int \<Rightarrow> 'g"
  pick :: "'g \<Rightarrow> nat \<Rightarrow> nat \<Rightarrow> nat list \<times> 'g"

text \<open>
  \<^verbatim>\<open>random.sample\<close> raises \<^verbatim>\<open>ValueError\<close> when \<open>k\<close> is negative or larger than the
  population, before it draws anything; otherwise it returns the elements at the chosen
  positions, in the order chosen.
\<close>

definition random_sample :: "'g rng \<Rightarrow> 'g \<Rightarrow> int list \<Rightarrow> int \<Rightarrow> (error + int list) \<times> 'g" where
  "random_sample R g population k =
     (if k < 0 \<or> int (length population) < k then (Inl ValueError, g)
      else (case pick R g (length population) (nat k) of
              (js, g') \<Rightarrow> (Inr (map (\<lambda>j. population ! j) js), g')))"

text \<open>
  What the library promises of \<^verbatim>\<open>sample\<close>: \<open>k\<close> positions of the population, no position
  twice.
\<close>

definition sampler_ok :: "'g rng \<Rightarrow> bool" where
  "sampler_ok R \<longleftrightarrow>
     (\<forall>g n k. k \<le> n \<longrightarrow>
        length (fst (pick R g n k)) = k \<and> distinct (fst (pick R g n k)) \<and>
        (\<forall>j \<in> set (fst (pick R g n k)). j < n))"

text \<open>
  A small generator to run the definitions on concrete inputs: the state is a counter,
  and a draw takes the last \<open>k\<close> positions in descending order.
\<close>

definition demo_rng :: "int rng" where
  "demo_rng = \<lparr>seed_state = (\<lambda>a. a), pick = (\<lambda>g n k. (rev [n - k..<n], g + 1))\<rparr>"

subsection \<open>Sampling and the entry point lazylist\<close>

text \<open>
  Lines 87 to 89 (and 91 to 93 for the light list), on the generator state \<open>g\<close>:
  \<^verbatim>\<open>if len(dark_dedupe) > dark_frames: random.seed(seed);
  dark_dedupe = random.sample(dark_dedupe, dark_frames)\<close>.
\<close>

definition sample_bucket :: "'g rng \<Rightarrow> int \<Rightarrow> int list \<Rightarrow> int \<Rightarrow> 'g \<Rightarrow> (error + int list) \<times> 'g" where
  "sample_bucket R seed dedupe frames g =
     (if int (length dedupe) > frames then random_sample R (seed_state R seed) dedupe frames
      else (Inr dedupe, g))"

text \<open>
  \<^verbatim>\<open>lazylist(clip, dark_frames, light_frames, seed, diff_thr)\<close>, run with the generator
  in state \<open>g\<close>. The result is the exception or the returned list, and the generator
  state the call leaves behind.
\<close>

definition lazylist :: "'g rng \<Rightarrow> 'g \<Rightarrow> clip \<Rightarrow> int \<Rightarrow> int \<Rightarrow> int \<Rightarrow> int \<Rightarrow> (error + int list) \<times> 'g" where
  "lazylist R g c dark_frames light_frames seed diff_thr =
     (case dedupe_buckets c diff_thr of
        Inl e \<Rightarrow> (Inl e, g)
      | Inr (dark_dedupe, light_dedupe) \<Rightarrow>
        (case sample_bucket R seed dark_dedupe dark_frames g of
           (Inl e, g1) \<Rightarrow> (Inl e, g1)
         | (Inr dark_sampled, g1) \<Rightarrow>
           (case sample_bucket R seed light_dedupe light_frames g1 of
              (Inl e, g2) \<Rightarrow> (Inl e, g2)
            | (Inr light_sampled, g2) \<Rightarrow> (Inr (dark_sampled @ light_sampled), g2))))"

subsection \<open>The desync scanner\<close>

text \<open>
  What \<^verbatim>\<open>desync\<close> does that can be observed: the progress line, the frame request and
  the report line.
\<close>

datatype event = Checking nat nat | GetFrame nat | DesyncDetected nat

text \<open>
  Lines 214 to 219, \<^verbatim>\<open>for i in range(start, stats.num_frames)\<close>; \<open>stats\<close> is the list of
  \<^verbatim>\<open>PlaneStatsDiff\<close> values of the frames of \<^verbatim>\<open>core.std.PlaneStats(clipa, clipb)\<close>. The
  function returns the events in the order they happen.
\<close>

function desync_loop :: "real list \<Rightarrow> nat \<Rightarrow> event list" where
  "desync_loop stats i =
     (if i < length stats then
        [Checking i (length stats), GetFrame i] @
        (let diff = stats ! i in
         if diff > 0.150000 then [DesyncDetected i]
         else desync_loop stats (Suc i))
      else [])"
  by pat_completeness auto
termination
  by (relation "measure (\<lambda>(stats, i). length stats - i)") auto

declare desync_loop.simps [simp del]

definition desync :: "real list \<Rightarrow> nat \<Rightarrow> event list" where
  "desync stats start = desync_loop stats start"

text \<open>The frames requested and the index reported, read off the events.\<close>

fun frames_read :: "event list \<Rightarrow> nat list" where
  "frames_read [] = []"
| "frames_read (GetFrame i # es) = i # frames_read es"
| "frames_read (_ # es) = frames_read es"

fun reported :: "event list \<Rightarrow> nat option" where
  "reported [] = None"
| "reported (DesyncDetected i # es) = Some i"
| "reported (_ # es) = reported es"

subsection \<open>The greedy rule of the specification\<close>

text \<open>
  The simple rule, written from the specification's words: keep the first index, then
  keep each later \<open>x\<close> exactly when \<open>x \<ge> last_kept + thr\<close>.
\<close>

fun greedy_from :: "int \<Rightarrow> int \<Rightarrow> int list \<Rightarrow> int list" where
  "greedy_from thr last_kept [] = []"
| "greedy_from thr last_kept (x # xs) =
     (if x \<ge> last_kept + thr then x # greedy_from thr x xs
      else greedy_from thr last_kept xs)"

fun greedy_dedupe :: "int \<Rightarrow> int list \<Rightarrow> int list" where
  "greedy_dedupe thr [] = []"
| "greedy_dedupe thr (x # xs) = x # greedy_from thr x xs"

section \<open>Properties\<close>

subsection \<open>Classification\<close>

text \<open>
  C4. The callback puts frame \<open>n\<close> in the dark list exactly when
  \<open>0.062746 \<le> avg \<le> 0.38\<close>, in the light list exactly when \<open>avg\<close> is outside that range
  and \<open>0.45 \<le> avg \<le> 0.8\<close>, and leaves both lists alone otherwise; it never appends to
  both.
\<close>

theorem checkclip_classifies:
  "(dark (checkclip n avg b) = dark b @ [n] \<longleftrightarrow> 0.062746 \<le> avg \<and> avg \<le> 0.38) \<and>
   (dark (checkclip n avg b) \<noteq> dark b @ [n] \<longrightarrow> dark (checkclip n avg b) = dark b) \<and>
   (light (checkclip n avg b) = light b @ [n] \<longleftrightarrow>
      \<not> (0.062746 \<le> avg \<and> avg \<le> 0.38) \<and> 0.45 \<le> avg \<and> avg \<le> 0.8) \<and>
   (light (checkclip n avg b) \<noteq> light b @ [n] \<longrightarrow> light (checkclip n avg b) = light b) \<and>
   (\<not> (0.062746 \<le> avg \<and> avg \<le> 0.38) \<and> \<not> (0.45 \<le> avg \<and> avg \<le> 0.8) \<longrightarrow>
      checkclip n avg b = b) \<and>
   \<not> (dark (checkclip n avg b) = dark b @ [n] \<and> light (checkclip n avg b) = light b @ [n])"
  by (simp add: checkclip_def)

theorem checkclip_classifies_witness:
  "dark (checkclip 3 0.2 \<lparr>dark = [1], light = [2]\<rparr>) = [1, 3] \<and>
   light (checkclip 3 0.2 \<lparr>dark = [1], light = [2]\<rparr>) = [2] \<and>
   light (checkclip 3 0.5 \<lparr>dark = [1], light = [2]\<rparr>) = [2, 3] \<and>
   checkclip 3 0.4 \<lparr>dark = [1], light = [2]\<rparr> = \<lparr>dark = [1], light = [2]\<rparr>"
  using checkclip_classifies [of 3 "0.2" "\<lparr>dark = [1], light = [2]\<rparr>"]
    checkclip_classifies [of 3 "0.5" "\<lparr>dark = [1], light = [2]\<rparr>"]
    checkclip_classifies [of 3 "0.4" "\<lparr>dark = [1], light = [2]\<rparr>"]
  by simp

lemma evaluate_clip_snoc:
  "evaluate_clip (ls @ [a]) = checkclip (int (length ls)) a (evaluate_clip ls)"
  by (simp add: evaluate_clip_def enumerate_append_eq)

lemma dark_evaluate_clip:
  "dark (evaluate_clip ls) =
   map int (filter (\<lambda>n. 0.062746 \<le> ls ! n \<and> ls ! n \<le> 0.38) [0..<length ls])"
proof (induction ls rule: rev_induct)
  case Nil
  then show ?case by (simp add: evaluate_clip_def)
next
  case (snoc a ls)
  have "filter (\<lambda>n. 0.062746 \<le> (ls @ [a]) ! n \<and> (ls @ [a]) ! n \<le> 0.38) [0..<length ls] =
        filter (\<lambda>n. 0.062746 \<le> ls ! n \<and> ls ! n \<le> 0.38) [0..<length ls]"
    by (rule filter_cong) (auto simp: nth_append)
  with snoc show ?case
    by (simp add: evaluate_clip_snoc checkclip_def)
qed

lemma light_evaluate_clip:
  "light (evaluate_clip ls) =
   map int (filter (\<lambda>n. \<not> (0.062746 \<le> ls ! n \<and> ls ! n \<le> 0.38) \<and>
                         0.45 \<le> ls ! n \<and> ls ! n \<le> 0.8) [0..<length ls])"
proof (induction ls rule: rev_induct)
  case Nil
  then show ?case by (simp add: evaluate_clip_def)
next
  case (snoc a ls)
  have "filter (\<lambda>n. \<not> (0.062746 \<le> (ls @ [a]) ! n \<and> (ls @ [a]) ! n \<le> 0.38) \<and>
                         0.45 \<le> (ls @ [a]) ! n \<and> (ls @ [a]) ! n \<le> 0.8) [0..<length ls] =
        filter (\<lambda>n. \<not> (0.062746 \<le> ls ! n \<and> ls ! n \<le> 0.38) \<and>
                         0.45 \<le> ls ! n \<and> ls ! n \<le> 0.8) [0..<length ls]"
    by (rule filter_cong) (auto simp: nth_append)
  with snoc show ?case
    by (simp add: evaluate_clip_snoc checkclip_def)
qed

lemma strict_map_int_filter: "sorted_wrt (<) (map int (filter P [0..<n]))"
  by (simp add: sorted_wrt_map sorted_wrt_filter)

lemma sort_strict: "sorted_wrt (<) (xs :: int list) \<Longrightarrow> sort xs = xs"
  by (simp add: sorted_sort_id strict_sorted_imp_sorted)

lemma sort_dark: "sort (dark (evaluate_clip ls)) = dark (evaluate_clip ls)"
  by (rule sort_strict) (simp only: dark_evaluate_clip strict_map_int_filter)

lemma sort_light: "sort (light (evaluate_clip ls)) = light (evaluate_clip ls)"
  by (rule sort_strict) (simp only: light_evaluate_clip strict_map_int_filter)

subsection \<open>Deduplication\<close>

lemma scan_checklist_iff:
  "scan_checklist x thr lastval ys \<longleftrightarrow> x \<ge> lastval + thr \<and> (\<exists>y \<in> set ys. x \<ge> y + thr)"
  by (induction ys) auto

lemma dedupe_step_prefix:
  assumes "lastval \<in> set pre"
  shows "dedupe_step (pre @ x # suf) thr (length pre) (dedupe, lastval) =
         (if x \<ge> lastval + thr then (dedupe @ [x], x) else (dedupe, lastval))"
  using assms by (auto simp: dedupe_step_def scan_checklist_iff)

lemma dedupe_fold_greedy:
  "lastval \<in> set pre \<Longrightarrow>
   fst (fold (dedupe_step (pre @ suf) thr) [length pre..<length (pre @ suf)] (dedupe, lastval)) =
   dedupe @ greedy_from thr lastval suf"
proof (induction suf arbitrary: pre dedupe lastval)
  case Nil
  then show ?case by simp
next
  case (Cons x suf)
  have upt: "[length pre..<length (pre @ x # suf)] =
             length pre # [length (pre @ [x])..<length ((pre @ [x]) @ suf)]"
  proof -
    have "length pre < length (pre @ x # suf)" by simp
    from upt_conv_Cons [OF this] show ?thesis by simp
  qed
  show ?case
  proof (cases "x \<ge> lastval + thr")
    case True
    have "x \<in> set (pre @ [x])" by simp
    from Cons.IH [OF this, of "dedupe @ [x]"] True Cons.prems show ?thesis
      by (simp only: upt fold_Cons comp_apply dedupe_step_prefix [OF Cons.prems] if_True
          greedy_from.simps append_assoc append_Cons append_Nil)
  next
    case False
    have "lastval \<in> set (pre @ [x])" using Cons.prems by simp
    from Cons.IH [OF this, of dedupe] False Cons.prems show ?thesis
      by (simp only: upt fold_Cons comp_apply dedupe_step_prefix [OF Cons.prems] if_False
          greedy_from.simps append_assoc append_Cons append_Nil)
  qed
qed

lemma dedupe_loop_greedy:
  assumes "first xs = Inr x0"
  shows "dedupe_loop xs thr x0 = greedy_dedupe thr xs"
proof -
  from assms obtain rest where xs: "xs = x0 # rest"
    by (auto simp: first_def split: list.splits)
  have "fst (fold (dedupe_step ([x0] @ rest) thr) [length [x0]..<length ([x0] @ rest)] ([x0], x0)) =
        [x0] @ greedy_from thr x0 rest"
    by (rule dedupe_fold_greedy) simp
  then show ?thesis by (simp add: dedupe_loop_def xs)
qed

lemma set_greedy_from: "set (greedy_from thr l xs) \<subseteq> set xs"
  by (induction xs arbitrary: l) auto

lemma sorted_wrt_greedy_from: "sorted_wrt P xs \<Longrightarrow> sorted_wrt P (greedy_from thr l xs)"
proof (induction xs arbitrary: l)
  case Nil
  then show ?case by simp
next
  case (Cons x xs)
  then show ?case using set_greedy_from [of thr x xs] by auto
qed

lemma gap_greedy_from: "successively (\<lambda>a b. thr \<le> b - a) (l # greedy_from thr l xs)"
  by (induction xs arbitrary: l) (auto simp: successively_Cons)

lemma dedupe_loop_Cons: "dedupe_loop (x # rest) thr x = x # greedy_from thr x rest"
  using dedupe_loop_greedy [of "x # rest" x thr] by (simp add: first_def)

lemma first_Inr: "first xs = Inr x0 \<longleftrightarrow> (\<exists>rest. xs = x0 # rest)"
  by (auto simp: first_def split: list.splits)

lemma dedupe_loop_strict:
  assumes "sorted_wrt (<) xs" "first xs = Inr x0"
  shows "sorted_wrt (<) (dedupe_loop xs thr x0)"
proof -
  from assms(2) obtain rest where xs: "xs = x0 # rest" by (auto simp: first_Inr)
  from assms(1) have "sorted_wrt (<) (greedy_from thr x0 rest)"
    by (simp add: xs sorted_wrt_greedy_from)
  moreover have "\<forall>y \<in> set (greedy_from thr x0 rest). x0 < y"
    using assms(1) set_greedy_from [of thr x0 rest] by (auto simp: xs)
  ultimately show ?thesis by (simp add: xs dedupe_loop_Cons)
qed

lemma dedupe_loop_gap:
  assumes "first xs = Inr x0"
  shows "successively (\<lambda>a b. thr \<le> b - a) (dedupe_loop xs thr x0)"
proof -
  from assms obtain rest where xs: "xs = x0 # rest" by (auto simp: first_Inr)
  show ?thesis by (simp only: xs dedupe_loop_Cons gap_greedy_from)
qed

lemma dedupe_loop_subset:
  assumes "first xs = Inr x0"
  shows "set (dedupe_loop xs thr x0) \<subseteq> set xs"
proof -
  from assms obtain rest where xs: "xs = x0 # rest" by (auto simp: first_Inr)
  show ?thesis using set_greedy_from [of thr x0 rest] by (auto simp: xs dedupe_loop_Cons)
qed

text \<open>
  The threshold on some inputs: the usual frame rate 24000/1001, a product that the
  float arithmetic puts just below a tie (the exact value of 15/22 * 11 is 7.5), a
  numerator that is not a double, and a zero denominator.
\<close>

lemma compute_thr_examples:
  "compute_thr \<lparr>luma = [], fps_num = 24000, fps_den = 1001\<rparr> 15 = Inr 360"
  "compute_thr \<lparr>luma = [], fps_num = 15, fps_den = 22\<rparr> 11 = Inr 7"
  "compute_thr \<lparr>luma = [], fps_num = 2 ^ 53 + 1, fps_den = 1\<rparr> 1 = Inr (2 ^ 53)"
  "compute_thr \<lparr>luma = [], fps_num = 24, fps_den = 0\<rparr> 15 = Inl ZeroDivisionError"
  by code_simp+

lemma greedy_from_keeps_all:
  "thr \<le> 0 \<Longrightarrow> sorted_wrt (<) (l # xs) \<Longrightarrow> greedy_from thr l xs = xs"
  by (induction xs arbitrary: l) auto

lemma compute_thr_Inr:
  assumes "compute_thr c diff_thr = Inr t"
  obtains q d where "py_truediv (fps_num c) (fps_den c) = Inr q"
    "py_float diff_thr = Inr d" "py_round (float_mul q d) = Inr t"
  using assms by (auto simp: compute_thr_def split: sum.splits)

lemma dedupe_loop_keeps_all:
  assumes "thr \<le> 0" "sorted_wrt (<) xs" "first xs = Inr x0"
  shows "dedupe_loop xs thr x0 = xs"
proof -
  from assms(3) obtain rest where xs: "xs = x0 # rest" by (auto simp: first_Inr)
  from assms(1,2) have "greedy_from thr x0 rest = rest"
    unfolding xs by (intro greedy_from_keeps_all) simp_all
  then show ?thesis by (simp add: xs dedupe_loop_Cons)
qed

lemma dedupe_buckets_Inr:
  assumes "dedupe_buckets c diff_thr = Inr (dd, ld)"
  obtains d0 l0 thr where
    "first (dark (evaluate_clip (luma c))) = Inr d0"
    "first (light (evaluate_clip (luma c))) = Inr l0"
    "compute_thr c diff_thr = Inr thr"
    "dd = dedupe_loop (dark (evaluate_clip (luma c))) thr d0"
    "ld = dedupe_loop (light (evaluate_clip (luma c))) thr l0"
  using assms
  by (auto simp: dedupe_buckets_def Let_def sort_dark sort_light split: sum.splits)

lemma strict_dark: "sorted_wrt (<) (dark (evaluate_clip ls))"
  by (simp only: dark_evaluate_clip strict_map_int_filter)

lemma strict_light: "sorted_wrt (<) (light (evaluate_clip ls))"
  by (simp only: light_evaluate_clip strict_map_int_filter)

text \<open>
  C1. On a strictly increasing list with a first element, the list the loop builds is
  strictly ascending, and each kept index is at least \<open>thr\<close> after the kept index before
  it, for every integer \<open>thr\<close>. Inside lazylist this holds of both deduplicated lists
  with the threshold of line 61: the quotient of \<open>fps_num\<close> and \<open>fps_den\<close> as a float, times
  \<open>diff_thr\<close> as a float, rounded to an integer.
\<close>

theorem dedupe_ascending_gap:
  "(sorted_wrt (<) xs \<and> first xs = Inr x0 \<longrightarrow>
      sorted_wrt (<) (dedupe_loop xs thr x0) \<and>
      successively (\<lambda>a b. thr \<le> b - a) (dedupe_loop xs thr x0)) \<and>
   (dedupe_buckets c diff_thr = Inr (dd, ld) \<longrightarrow>
      (\<exists>q d t. py_truediv (fps_num c) (fps_den c) = Inr q \<and> py_float diff_thr = Inr d \<and>
         py_round (float_mul q d) = Inr t \<and>
         sorted_wrt (<) dd \<and> successively (\<lambda>a b. t \<le> b - a) dd \<and>
         sorted_wrt (<) ld \<and> successively (\<lambda>a b. t \<le> b - a) ld))"
proof (intro conjI impI)
  assume a: "sorted_wrt (<) xs \<and> first xs = Inr x0"
  then show "sorted_wrt (<) (dedupe_loop xs thr x0)" by (simp add: dedupe_loop_strict)
  from a show "successively (\<lambda>a b. thr \<le> b - a) (dedupe_loop xs thr x0)"
    by (simp add: dedupe_loop_gap)
next
  assume "dedupe_buckets c diff_thr = Inr (dd, ld)"
  then obtain d0 l0 t where
    d0: "first (dark (evaluate_clip (luma c))) = Inr d0" and
    l0: "first (light (evaluate_clip (luma c))) = Inr l0" and
    t: "compute_thr c diff_thr = Inr t" and
    dd: "dd = dedupe_loop (dark (evaluate_clip (luma c))) t d0" and
    ld: "ld = dedupe_loop (light (evaluate_clip (luma c))) t l0"
    by (rule dedupe_buckets_Inr)
  have "sorted_wrt (<) dd" unfolding dd using strict_dark d0 by (rule dedupe_loop_strict)
  moreover have "sorted_wrt (<) ld" unfolding ld using strict_light l0 by (rule dedupe_loop_strict)
  moreover have "successively (\<lambda>a b. t \<le> b - a) dd" unfolding dd using d0 by (rule dedupe_loop_gap)
  moreover have "successively (\<lambda>a b. t \<le> b - a) ld" unfolding ld using l0 by (rule dedupe_loop_gap)
  moreover from t obtain q d where "py_truediv (fps_num c) (fps_den c) = Inr q"
    "py_float diff_thr = Inr d" "py_round (float_mul q d) = Inr t"
    by (rule compute_thr_Inr)
  ultimately show "\<exists>q d t. py_truediv (fps_num c) (fps_den c) = Inr q \<and>
         py_float diff_thr = Inr d \<and> py_round (float_mul q d) = Inr t \<and>
         sorted_wrt (<) dd \<and> successively (\<lambda>a b. t \<le> b - a) dd \<and>
         sorted_wrt (<) ld \<and> successively (\<lambda>a b. t \<le> b - a) ld"
    by blast
qed

theorem dedupe_ascending_gap_witness:
  "sorted_wrt (<) [0, 1, 4, 7, 9, 20 :: int] \<and> first [0, 1, 4, 7, 9, 20] = Inr 0 \<and>
   dedupe_loop [0, 1, 4, 7, 9, 20] 3 0 = [0, 4, 7, 20] \<and>
   sorted_wrt (<) (dedupe_loop [0, 1, 4, 7, 9, 20] 3 0) \<and>
   successively (\<lambda>a b. 3 \<le> b - a) (dedupe_loop [0, 1, 4, 7, 9, 20] 3 0) \<and>
   dedupe_buckets \<lparr>luma = [0.2, 0.5, 0.3, 0.9, 0.3, 0.9, 0.9, 0.2], fps_num = 15, fps_den = 22\<rparr> 11
     = Inr ([0, 7], [1]) \<and>
   py_truediv 15 22 = Inr (6141272219141585, - 53) \<and>
   py_float 11 = Inr (6192449487634432, - 49) \<and>
   py_round (float_mul (6141272219141585, - 53) (6192449487634432, - 49)) = Inr 7 \<and>
   successively (\<lambda>a b. 7 \<le> b - a) [0, 7 :: int]"
proof -
  have e1: "dedupe_loop [0, 1, 4, 7, 9, 20] 3 0 = [0, 4, 7, 20]" by code_simp
  have e2: "dedupe_buckets
      \<lparr>luma = [0.2, 0.5, 0.3, 0.9, 0.3, 0.9, 0.9, 0.2], fps_num = 15, fps_den = 22\<rparr> 11
     = Inr ([0, 7], [1])" by code_simp
  have e3: "first [0, 1, 4, 7, 9, 20] = Inr 0" by (simp add: first_def)
  have f1: "py_truediv 15 22 = Inr (6141272219141585, - 53)" by code_simp
  have f2: "py_float 11 = Inr (6192449487634432, - 49)" by code_simp
  have f3: "py_round (float_mul (6141272219141585, - 53) (6192449487634432, - 49)) = Inr 7"
    by code_simp
  show ?thesis
    using dedupe_ascending_gap [of "[0, 1, 4, 7, 9, 20]" 0 3
        "\<lparr>luma = [0.2, 0.5, 0.3, 0.9, 0.3, 0.9, 0.9, 0.2], fps_num = 15, fps_den = 22\<rparr>"
        11 "[0, 7]" "[1]"]
      e1 e2 e3 f1 f2 f3
    by simp
qed

text \<open>
  C2. On every list with a first element (strictly increasing or not) and every \<open>thr\<close>,
  the loop of the source, which scans the prefix for a \<open>y\<close> with \<open>x \<ge> y + thr\<close> and
  \<open>x \<ge> lastval + thr\<close>, returns the list of the simple greedy rule.
\<close>

theorem dedupe_matches_greedy:
  "first xs = Inr x0 \<Longrightarrow> dedupe_loop xs thr x0 = greedy_dedupe thr xs"
  by (auto simp: first_Inr dedupe_loop_Cons)

theorem dedupe_matches_greedy_witness:
  "first [0, 1, 4, 7, 9, 20] = Inr 0 \<and>
   dedupe_loop [0, 1, 4, 7, 9, 20] 3 0 = greedy_dedupe 3 [0, 1, 4, 7, 9, 20] \<and>
   greedy_dedupe 3 [0, 1, 4, 7, 9, 20] = [0, 4, 7, 20]"
proof -
  have h: "first [0, 1, 4, 7, 9, 20] = Inr 0" by (simp add: first_def)
  from dedupe_matches_greedy [OF h, of 3] h show ?thesis by simp
qed

subsection \<open>The desync scanner\<close>

lemma desync_loop_end: "length stats \<le> i \<Longrightarrow> desync_loop stats i = []"
  by (subst desync_loop.simps) simp

lemma desync_loop_hit:
  "i < length stats \<Longrightarrow> stats ! i > 0.15 \<Longrightarrow>
   desync_loop stats i = [Checking i (length stats), GetFrame i, DesyncDetected i]"
  by (subst desync_loop.simps) simp

lemma desync_loop_miss:
  "i < length stats \<Longrightarrow> \<not> stats ! i > 0.15 \<Longrightarrow>
   desync_loop stats i = Checking i (length stats) # GetFrame i # desync_loop stats (Suc i)"
  by (subst desync_loop.simps) simp

lemma reported_desync_loop:
  "reported (desync_loop stats s) = Some i \<longleftrightarrow>
   s \<le> i \<and> i < length stats \<and> stats ! i > 0.15 \<and> (\<forall>j. s \<le> j \<and> j < i \<longrightarrow> stats ! j \<le> 0.15)"
proof (induction stats s rule: desync_loop.induct)
  case (1 stats s)
  show ?case
  proof (cases "s < length stats")
    case False
    then show ?thesis by (simp add: desync_loop_end)
  next
    case True
    show ?thesis
    proof (cases "stats ! s > 0.15")
      case hit: True
      have "i = s" if "s \<le> i" "\<forall>j. s \<le> j \<and> j < i \<longrightarrow> stats ! j \<le> 0.15"
      proof (rule ccontr)
        assume "i \<noteq> s"
        with that(1) have "s < i" by simp
        with that(2) have "stats ! s \<le> 0.15" by simp
        with hit show False by simp
      qed
      with True hit show ?thesis by (auto simp: desync_loop_hit)
    next
      case miss: False
      from "1.IH" [OF True refl] miss
      have IH: "reported (desync_loop stats (Suc s)) = Some i \<longleftrightarrow>
         Suc s \<le> i \<and> i < length stats \<and> stats ! i > 0.15 \<and>
         (\<forall>j. Suc s \<le> j \<and> j < i \<longrightarrow> stats ! j \<le> 0.15)"
        by simp
      have a: "(\<forall>j. s \<le> j \<and> j < i \<longrightarrow> stats ! j \<le> 0.15) \<longleftrightarrow>
               (\<forall>j. Suc s \<le> j \<and> j < i \<longrightarrow> stats ! j \<le> 0.15)"
        using miss by (metis Suc_leI le_neq_implies_less Suc_leD not_less)
      have b: "stats ! i > 0.15 \<Longrightarrow> s \<le> i \<longleftrightarrow> Suc s \<le> i"
        using miss by (cases "i = s") auto
      show ?thesis
        using True miss IH a b by (auto simp: desync_loop_miss)
    qed
  qed
qed

lemma frames_read_desync_loop:
  "frames_read (desync_loop stats s) =
   (case reported (desync_loop stats s) of Some i \<Rightarrow> [s..<Suc i] | None \<Rightarrow> [s..<length stats])"
proof (induction stats s rule: desync_loop.induct)
  case (1 stats s)
  show ?case
  proof (cases "s < length stats")
    case False
    then show ?thesis by (simp add: desync_loop_end)
  next
    case True
    show ?thesis
    proof (cases "stats ! s > 0.15")
      case hit: True
      with True show ?thesis by (simp add: desync_loop_hit)
    next
      case miss: False
      from "1.IH" [OF True refl] miss
      have IH: "frames_read (desync_loop stats (Suc s)) =
        (case reported (desync_loop stats (Suc s)) of Some i \<Rightarrow> [Suc s..<Suc i]
         | None \<Rightarrow> [Suc s..<length stats])"
        by simp
      show ?thesis
      proof (cases "reported (desync_loop stats (Suc s))")
        case None
        with True miss IH show ?thesis by (simp add: desync_loop_miss upt_conv_Cons)
      next
        case (Some i)
        then have "Suc s \<le> i" by (simp add: reported_desync_loop)
        with Some True miss IH show ?thesis by (simp add: desync_loop_miss upt_conv_Cons)
      qed
    qed
  qed
qed

lemma reported_None_desync_loop:
  "reported (desync_loop stats s) = None \<longleftrightarrow>
   (\<forall>j. s \<le> j \<and> j < length stats \<longrightarrow> stats ! j \<le> 0.15)"
proof -
  have "reported (desync_loop stats s) \<noteq> None \<longleftrightarrow>
        (\<exists>j. s \<le> j \<and> j < length stats \<and> stats ! j > 0.15)"
  proof
    assume "reported (desync_loop stats s) \<noteq> None"
    then obtain i where "reported (desync_loop stats s) = Some i" by auto
    then show "\<exists>j. s \<le> j \<and> j < length stats \<and> stats ! j > 0.15"
      unfolding reported_desync_loop by blast
  next
    assume "\<exists>j. s \<le> j \<and> j < length stats \<and> stats ! j > 0.15"
    then obtain j where j: "s \<le> j \<and> j < length stats \<and> stats ! j > 0.15" by blast
    define i where "i = (LEAST j. s \<le> j \<and> j < length stats \<and> stats ! j > 0.15)"
    have i: "s \<le> i \<and> i < length stats \<and> stats ! i > 0.15"
      unfolding i_def using j by (rule LeastI)
    have "\<not> (s \<le> k \<and> k < length stats \<and> stats ! k > 0.15)" if "k < i" for k
      using that unfolding i_def by (rule not_less_Least)
    with i have "\<forall>k. s \<le> k \<and> k < i \<longrightarrow> stats ! k \<le> 0.15"
      by (meson less_trans not_less)
    with i have "reported (desync_loop stats s) = Some i"
      unfolding reported_desync_loop by blast
    then show "reported (desync_loop stats s) \<noteq> None" by simp
  qed
  then show ?thesis by (auto simp: not_less)
qed

text \<open>
  C3. For every list of difference values and every start, the scanner reports \<open>i\<close>
  exactly when \<open>i\<close> is the smallest index from \<open>start\<close> on, below the number of frames,
  whose value is above 0.15, and then the frames it has requested are \<open>start\<close> to \<open>i\<close> and
  no more; when no value from \<open>start\<close> on is above 0.15 it reports nothing and has
  requested every frame from \<open>start\<close> to the last; it never requests a frame before
  \<open>start\<close>.
\<close>

theorem desync_first_exceeding:
  "(reported (desync stats start) = Some i \<longleftrightarrow>
      start \<le> i \<and> i < length stats \<and> stats ! i > 0.15 \<and>
      (\<forall>j. start \<le> j \<and> j < i \<longrightarrow> stats ! j \<le> 0.15)) \<and>
   (reported (desync stats start) = Some i \<longrightarrow>
      frames_read (desync stats start) = [start..<Suc i]) \<and>
   ((\<forall>j. start \<le> j \<and> j < length stats \<longrightarrow> stats ! j \<le> 0.15) \<longrightarrow>
      reported (desync stats start) = None \<and>
      frames_read (desync stats start) = [start..<length stats]) \<and>
   (\<forall>j \<in> set (frames_read (desync stats start)). start \<le> j)"
proof (intro conjI impI)
  show "reported (desync stats start) = Some i \<longleftrightarrow>
      start \<le> i \<and> i < length stats \<and> stats ! i > 0.15 \<and>
      (\<forall>j. start \<le> j \<and> j < i \<longrightarrow> stats ! j \<le> 0.15)"
    unfolding desync_def by (rule reported_desync_loop)
next
  assume "reported (desync stats start) = Some i"
  then show "frames_read (desync stats start) = [start..<Suc i]"
    by (simp add: desync_def frames_read_desync_loop)
next
  assume "\<forall>j. start \<le> j \<and> j < length stats \<longrightarrow> stats ! j \<le> 0.15"
  then have none: "reported (desync_loop stats start) = None"
    by (simp only: reported_None_desync_loop)
  then show "reported (desync stats start) = None" by (simp add: desync_def)
  from none show "frames_read (desync stats start) = [start..<length stats]"
    by (simp add: desync_def frames_read_desync_loop)
next
  show "\<forall>j \<in> set (frames_read (desync stats start)). start \<le> j"
    by (cases "reported (desync_loop stats start)")
      (auto simp: desync_def frames_read_desync_loop)
qed

theorem desync_first_exceeding_witness:
  "reported (desync [0.01, 0.02, 0.20, 0.03] 0) = Some 2 \<and>
   frames_read (desync [0.01, 0.02, 0.20, 0.03] 0) = [0, 1, 2] \<and>
   reported (desync [0.01, 0.02, 0.03, 0.15, 0.05] 1) = None \<and>
   frames_read (desync [0.01, 0.02, 0.03, 0.15, 0.05] 1) = [1, 2, 3, 4]"
proof -
  have e1: "reported (desync [0.01, 0.02, 0.20, 0.03] 0) = Some 2" by code_simp
  have e2: "reported (desync [0.01, 0.02, 0.03, 0.15, 0.05] 1) = None" by code_simp
  have u1: "[0..<Suc 2] = [0, 1, 2]" by (simp add: upt_conv_Cons)
  have u2: "[1..<length [0.01, 0.02, 0.03, 0.15, 0.05 :: real]] = [1, 2, 3, 4]"
    by (simp add: upt_conv_Cons)
  from desync_first_exceeding [of "[0.01, 0.02, 0.20, 0.03]" 0 2]
  have a: "frames_read (desync [0.01, 0.02, 0.20, 0.03] 0) = [0..<Suc 2]"
    using e1 by blast
  from desync_first_exceeding [of "[0.01, 0.02, 0.03, 0.15, 0.05]" 1 0]
  have b: "(\<forall>j. 1 \<le> j \<and> j < length [0.01, 0.02, 0.03, 0.15, 0.05 :: real] \<longrightarrow>
              [0.01, 0.02, 0.03, 0.15, 0.05 :: real] ! j \<le> 0.15) \<longrightarrow>
           frames_read (desync [0.01, 0.02, 0.03, 0.15, 0.05] 1) =
           [1..<length [0.01, 0.02, 0.03, 0.15, 0.05 :: real]]"
    by blast
  have c: "\<forall>j. 1 \<le> j \<and> j < length [0.01, 0.02, 0.03, 0.15, 0.05 :: real] \<longrightarrow>
              [0.01, 0.02, 0.03, 0.15, 0.05 :: real] ! j \<le> 0.15"
    by (simp add: nth_Cons' less_Suc_eq)
  from a b c e1 e2 show ?thesis by (simp only: u1 u2 simp_thms)
qed

subsection \<open>Sampling and the entry point\<close>

lemma demo_rng_ok: "sampler_ok demo_rng"
  by (auto simp: sampler_ok_def demo_rng_def)

lemma random_sample_Inr:
  assumes "sampler_ok R" "0 \<le> k" "k \<le> int (length xs)"
  shows "\<exists>js. fst (random_sample R g xs k) = Inr (map (\<lambda>j. xs ! j) js) \<and>
              length js = nat k \<and> distinct js \<and> (\<forall>j \<in> set js. j < length xs)"
proof -
  from assms(2,3) have le: "nat k \<le> length xs" by simp
  obtain js g' where p: "pick R g (length xs) (nat k) = (js, g')" by (cases "pick R g (length xs) (nat k)")
  from assms(1) le have "length (fst (pick R g (length xs) (nat k))) = nat k \<and>
      distinct (fst (pick R g (length xs) (nat k))) \<and>
      (\<forall>j \<in> set (fst (pick R g (length xs) (nat k))). j < length xs)"
    unfolding sampler_ok_def by blast
  with p have "length js = nat k \<and> distinct js \<and> (\<forall>j \<in> set js. j < length xs)" by simp
  moreover from assms(2,3) p have "fst (random_sample R g xs k) = Inr (map (\<lambda>j. xs ! j) js)"
    by (simp add: random_sample_def)
  ultimately show ?thesis by blast
qed

lemma random_sample_ValueError:
  "k < 0 \<Longrightarrow> random_sample R g xs k = (Inl ValueError, g)"
  by (simp add: random_sample_def)

lemma fst_sample_bucket:
  "fst (sample_bucket R seed xs k g) =
   (if int (length xs) > k then fst (random_sample R (seed_state R seed) xs k) else Inr xs)"
  by (simp add: sample_bucket_def)

lemma sample_bucket_subset:
  assumes "sampler_ok R" "fst (sample_bucket R seed xs k g) = Inr ys"
  shows "set ys \<subseteq> set xs"
proof (cases "int (length xs) > k")
  case False
  with assms(2) show ?thesis by (simp add: fst_sample_bucket)
next
  case True
  with assms(2) have r: "fst (random_sample R (seed_state R seed) xs k) = Inr ys"
    by (simp add: fst_sample_bucket)
  have k0: "0 \<le> k"
  proof (rule ccontr)
    assume "\<not> 0 \<le> k"
    then have "fst (random_sample R (seed_state R seed) xs k) = Inl ValueError"
      by (simp add: random_sample_ValueError)
    with r show False by simp
  qed
  from True have "k \<le> int (length xs)" by simp
  from random_sample_Inr [OF assms(1) k0 this, of "seed_state R seed"] r
  obtain js where "ys = map (\<lambda>j. xs ! j) js" "\<forall>j \<in> set js. j < length xs" by auto
  then show ?thesis by auto
qed

text \<open>
  C5. With a sampler that keeps the library's promise and a target count \<open>k \<ge> 0\<close>: a
  list no longer than \<open>k\<close> comes back unchanged and the generator state is untouched;
  a longer list yields the elements at \<open>k\<close> distinct positions of the list (distinct
  elements when the list has no duplicates); in both cases the result has
  \<open>min (length xs) k\<close> elements, all of them from the list.
\<close>

theorem sample_bucket_size:
  assumes "sampler_ok R" and "0 \<le> k"
  shows "(int (length xs) \<le> k \<longrightarrow> sample_bucket R seed xs k g = (Inr xs, g)) \<and>
    (k < int (length xs) \<longrightarrow>
       (\<exists>js. fst (sample_bucket R seed xs k g) = Inr (map (\<lambda>j. xs ! j) js) \<and>
             length js = nat k \<and> distinct js \<and> (\<forall>j \<in> set js. j < length xs))) \<and>
    (\<exists>ys. fst (sample_bucket R seed xs k g) = Inr ys \<and>
           int (length ys) = min (int (length xs)) k \<and> set ys \<subseteq> set xs \<and>
           (distinct xs \<longrightarrow> distinct ys))"
proof (cases "k < int (length xs)")
  case False
  then show ?thesis by (simp add: sample_bucket_def)
next
  case True
  then have "k \<le> int (length xs)" by simp
  from random_sample_Inr [OF assms(1) assms(2) this, of "seed_state R seed"]
  obtain js where js: "fst (random_sample R (seed_state R seed) xs k) = Inr (map (\<lambda>j. xs ! j) js)"
    "length js = nat k" "distinct js" "\<forall>j \<in> set js. j < length xs" by blast
  from True js(1) have s: "fst (sample_bucket R seed xs k g) = Inr (map (\<lambda>j. xs ! j) js)"
    by (simp add: fst_sample_bucket)
  have len: "int (length (map (\<lambda>j. xs ! j) js)) = min (int (length xs)) k"
    using True assms(2) js(2) by simp
  have sub: "set (map (\<lambda>j. xs ! j) js) \<subseteq> set xs" using js(4) by auto
  have dist: "distinct (map (\<lambda>j. xs ! j) js)" if "distinct xs"
    using that js(3,4) by (simp add: distinct_map inj_on_nth)
  show ?thesis
  proof (intro conjI impI)
    assume "int (length xs) \<le> k"
    with True show "sample_bucket R seed xs k g = (Inr xs, g)" by simp
  next
    from s js show "\<exists>js. fst (sample_bucket R seed xs k g) = Inr (map (\<lambda>j. xs ! j) js) \<and>
             length js = nat k \<and> distinct js \<and> (\<forall>j \<in> set js. j < length xs)"
      by blast
  next
    from s len sub dist show "\<exists>ys. fst (sample_bucket R seed xs k g) = Inr ys \<and>
           int (length ys) = min (int (length xs)) k \<and> set ys \<subseteq> set xs \<and>
           (distinct xs \<longrightarrow> distinct ys)"
      by blast
  qed
qed

theorem sample_bucket_size_witness:
  "sampler_ok demo_rng \<and> (0::int) \<le> 2 \<and>
   sample_bucket demo_rng 5 [0, 4, 7] 3 9 = (Inr [0, 4, 7], 9) \<and>
   fst (sample_bucket demo_rng 5 [0, 4, 7, 20] 2 9) = Inr [20, 7] \<and>
   int (length [20, 7 :: int]) = min (int (length [0, 4, 7, 20 :: int])) 2"
proof -
  have e: "fst (sample_bucket demo_rng 5 [0, 4, 7, 20] 2 9) = Inr [20, 7]" by code_simp
  have h3: "(0::int) \<le> 3" and h2: "(0::int) \<le> 2" by simp_all
  from sample_bucket_size [OF demo_rng_ok h3, of "[0, 4, 7]" 5 9]
    sample_bucket_size [OF demo_rng_ok h2, of "[0, 4, 7, 20]" 5 9] demo_rng_ok e
  show ?thesis by simp
qed

lemma lazylist_outcome:
  "fst (lazylist R g c dark_frames light_frames seed diff_thr) =
   (case dedupe_buckets c diff_thr of
      Inl e \<Rightarrow> Inl e
    | Inr (dd, ld) \<Rightarrow>
      (case fst (sample_bucket R seed dd dark_frames g1) of
         Inl e \<Rightarrow> Inl e
       | Inr d \<Rightarrow>
         (case fst (sample_bucket R seed ld light_frames g2) of
            Inl e \<Rightarrow> Inl e
          | Inr l \<Rightarrow> Inr (d @ l))))"
proof (cases "dedupe_buckets c diff_thr")
  case (Inl e)
  then show ?thesis by (simp add: lazylist_def)
next
  case (Inr p)
  obtain dd ld where p: "p = (dd, ld)" by (cases p)
  obtain rd gd where d: "sample_bucket R seed dd dark_frames g = (rd, gd)"
    by (cases "sample_bucket R seed dd dark_frames g")
  obtain rl gl where l: "sample_bucket R seed ld light_frames gd = (rl, gl)"
    by (cases "sample_bucket R seed ld light_frames gd")
  have "fst (sample_bucket R seed dd dark_frames g1) = fst (sample_bucket R seed dd dark_frames g)"
    by (simp only: fst_sample_bucket)
  with d have d': "fst (sample_bucket R seed dd dark_frames g1) = rd" by simp
  have "fst (sample_bucket R seed ld light_frames g2) = fst (sample_bucket R seed ld light_frames gd)"
    by (simp only: fst_sample_bucket)
  with l have l': "fst (sample_bucket R seed ld light_frames g2) = rl" by simp
  show ?thesis
    by (simp add: lazylist_def Inr p d l d' l' split: sum.splits)
qed

text \<open>
  C6. The outcome of lazylist (the returned list, or the exception) is the same from any
  two generator states, for the same clip, target counts, seed and \<open>diff_thr\<close>.
\<close>

theorem lazylist_deterministic:
  "fst (lazylist R g c dark_frames light_frames seed diff_thr) =
   fst (lazylist R g' c dark_frames light_frames seed diff_thr)"
  by (simp only: lazylist_outcome [where ?g1.0 = g and ?g2.0 = g])

text \<open>
  C10. What a bucket's sampling step returns does not depend on the generator state it
  starts from, hence on nothing but the seed, the bucket's deduplicated list and its
  target count: equal lists with equal counts give equal draws. The outcome of lazylist
  is put together from the two steps, each run from an arbitrary state.
\<close>

theorem buckets_drawn_independently:
  "fst (sample_bucket R seed xs k g) = fst (sample_bucket R seed xs k g') \<and>
   fst (lazylist R g c dark_frames light_frames seed diff_thr) =
   (case dedupe_buckets c diff_thr of
      Inl e \<Rightarrow> Inl e
    | Inr (dd, ld) \<Rightarrow>
      (case fst (sample_bucket R seed dd dark_frames g1) of
         Inl e \<Rightarrow> Inl e
       | Inr d \<Rightarrow>
         (case fst (sample_bucket R seed ld light_frames g2) of
            Inl e \<Rightarrow> Inl e
          | Inr l \<Rightarrow> Inr (d @ l))))"
  by (rule conjI) (simp only: fst_sample_bucket, rule lazylist_outcome)

lemma in_map_int_filter:
  "x \<in> set (map int (filter P [0..<n])) \<longleftrightarrow> 0 \<le> x \<and> nat x < n \<and> P (nat x)"
proof
  assume "x \<in> set (map int (filter P [0..<n]))"
  then obtain m where "x = int m" "m < n" "P m" by auto
  then show "0 \<le> x \<and> nat x < n \<and> P (nat x)" by simp
next
  assume a: "0 \<le> x \<and> nat x < n \<and> P (nat x)"
  then have "nat x \<in> set (filter P [0..<n])" by simp
  then have "int (nat x) \<in> int ` set (filter P [0..<n])" by (rule imageI)
  with a show "x \<in> set (map int (filter P [0..<n]))" by simp
qed

lemma in_dark_evaluate_clip:
  "x \<in> set (dark (evaluate_clip ls)) \<longleftrightarrow>
   0 \<le> x \<and> nat x < length ls \<and> 0.062746 \<le> ls ! nat x \<and> ls ! nat x \<le> 0.38"
  by (simp only: dark_evaluate_clip in_map_int_filter)

lemma in_light_evaluate_clip:
  "x \<in> set (light (evaluate_clip ls)) \<longleftrightarrow>
   0 \<le> x \<and> nat x < length ls \<and> \<not> (0.062746 \<le> ls ! nat x \<and> ls ! nat x \<le> 0.38) \<and>
   0.45 \<le> ls ! nat x \<and> ls ! nat x \<le> 0.8"
  by (simp only: light_evaluate_clip in_map_int_filter)

text \<open>
  C9. With a sampler that returns positions of the population, every index in the list
  lazylist returns is a frame number of the clip whose luma lies in the dark range or in
  the light range.
\<close>

theorem lazylist_returns_classified:
  assumes "sampler_ok R"
    and "fst (lazylist R g c dark_frames light_frames seed diff_thr) = Inr out"
    and "x \<in> set out"
  shows "0 \<le> x \<and> nat x < length (luma c) \<and>
    ((0.062746 \<le> luma c ! nat x \<and> luma c ! nat x \<le> 0.38) \<or>
     (0.45 \<le> luma c ! nat x \<and> luma c ! nat x \<le> 0.8))"
proof -
  from assms(2) obtain dd ld d l where
    db: "dedupe_buckets c diff_thr = Inr (dd, ld)" and
    d: "fst (sample_bucket R seed dd dark_frames g) = Inr d" and
    l: "fst (sample_bucket R seed ld light_frames g) = Inr l" and
    out: "out = d @ l"
    unfolding lazylist_outcome [where ?g1.0 = g and ?g2.0 = g]
    by (auto split: sum.splits)
  from db obtain d0 l0 t where
    d0: "first (dark (evaluate_clip (luma c))) = Inr d0" and
    l0: "first (light (evaluate_clip (luma c))) = Inr l0" and
    dd: "dd = dedupe_loop (dark (evaluate_clip (luma c))) t d0" and
    ld: "ld = dedupe_loop (light (evaluate_clip (luma c))) t l0"
    by (rule dedupe_buckets_Inr)
  from assms(3) out consider "x \<in> set d" | "x \<in> set l" by auto
  then show ?thesis
  proof cases
    case 1
    with sample_bucket_subset [OF assms(1) d] have "x \<in> set dd" by blast
    with dedupe_loop_subset [OF d0, of t] have "x \<in> set (dark (evaluate_clip (luma c)))"
      unfolding dd by blast
    then show ?thesis by (simp add: in_dark_evaluate_clip)
  next
    case 2
    with sample_bucket_subset [OF assms(1) l] have "x \<in> set ld" by blast
    with dedupe_loop_subset [OF l0, of t] have "x \<in> set (light (evaluate_clip (luma c)))"
      unfolding ld by blast
    then show ?thesis by (simp add: in_light_evaluate_clip)
  qed
qed

theorem lazylist_returns_classified_witness:
  "sampler_ok demo_rng \<and>
   fst (lazylist demo_rng 7 \<lparr>luma = [0.2, 0.9, 0.5, 0.5, 0.2], fps_num = 1, fps_den = 1\<rparr>
          1 4 2020 1) = Inr [4, 2, 3] \<and>
   (4::int) \<in> set [4, 2, 3] \<and>
   nat 4 < length [0.2, 0.9, 0.5, 0.5, 0.2 :: real] \<and>
   (0.062746 \<le> [0.2, 0.9, 0.5, 0.5, 0.2 :: real] ! nat 4 \<and>
    [0.2, 0.9, 0.5, 0.5, 0.2 :: real] ! nat 4 \<le> 0.38)"
proof -
  have e: "fst (lazylist demo_rng 7 \<lparr>luma = [0.2, 0.9, 0.5, 0.5, 0.2], fps_num = 1, fps_den = 1\<rparr>
          1 4 2020 1) = Inr [4, 2, 3]" by code_simp
  have m: "(4::int) \<in> set [4, 2, 3]" by simp
  from lazylist_returns_classified [OF demo_rng_ok e m] demo_rng_ok e
  show ?thesis by simp
qed

text \<open>
  C7. A clip whose frames are all dark leaves the light list empty; the read of
  \<^verbatim>\<open>light[0]\<close> on line 59 then raises \<^verbatim>\<open>IndexError\<close>, where the specification asks for
  an empty list for that bucket and no exception.
\<close>

theorem lazylist_empty_bucket_raises:
  "fst (lazylist demo_rng 0 \<lparr>luma = [0.2, 0.2, 0.3], fps_num = 24, fps_den = 1\<rparr>
          8 4 20202020 15) = Inl IndexError"
  by code_simp

text \<open>
  C8, as stated, fails: a target count of zero is not rejected, lazylist returns a list.
\<close>

theorem zero_target_count_accepted:
  "fst (lazylist demo_rng 0 \<lparr>luma = [0.2, 0.5], fps_num = 24, fps_den = 1\<rparr>
          0 4 20202020 15) = Inr [1]"
  by code_simp

lemma lazylist_negative_count:
  assumes "dedupe_buckets c diff_thr = Inr (dd, ld)" "dark_frames < 0 \<or> light_frames < 0"
  shows "fst (lazylist R g c dark_frames light_frames seed diff_thr) = Inl ValueError"
proof (cases "dark_frames < 0")
  case True
  then have "fst (sample_bucket R seed dd dark_frames g) = Inl ValueError"
    by (simp add: fst_sample_bucket random_sample_ValueError)
  with assms(1) show ?thesis
    by (simp add: lazylist_outcome [where ?g1.0 = g and ?g2.0 = g])
next
  case False
  with assms(2) have "light_frames < 0" by simp
  then have l: "fst (sample_bucket R seed ld light_frames g) = Inl ValueError"
    by (simp add: fst_sample_bucket random_sample_ValueError)
  have "\<exists>d. fst (sample_bucket R seed dd dark_frames g) = Inr d"
  proof (cases "dark_frames < int (length dd)")
    case True
    with False show ?thesis
      by (cases "pick R (seed_state R seed) (length dd) (nat dark_frames)")
        (simp add: fst_sample_bucket random_sample_def)
  next
    case False
    then show ?thesis by (simp add: fst_sample_bucket)
  qed
  then obtain d where "fst (sample_bucket R seed dd dark_frames g) = Inr d" by blast
  with assms(1) l show ?thesis
    by (simp add: lazylist_outcome [where ?g1.0 = g and ?g2.0 = g])
qed

text \<open>
  C8, amended. Neither entry point checks its parameters before it reads statistics.
  The scanner started at or beyond the number of frames requests no frame, prints
  nothing and returns. In lazylist an error of the classification and deduplication
  stage (an empty bucket, a failing threshold computation) comes first whatever the
  target counts are; after that stage a negative target count makes the sampling raise
  \<^verbatim>\<open>ValueError\<close>, and a target count of zero gives an empty selection for the bucket. A
  threshold that is not positive is not rejected: when line 61 yields \<open>thr \<le> 0\<close>, both
  deduplicated lists are the whole classified lists, as the loop keeps every index of
  a strictly increasing list.
\<close>

theorem parameters_not_validated:
  "(length stats \<le> start \<longrightarrow> desync stats start = []) \<and>
   (dedupe_buckets c diff_thr = Inl e \<longrightarrow>
      fst (lazylist R g c dark_frames light_frames seed diff_thr) = Inl e) \<and>
   (dedupe_buckets c diff_thr = Inr (dd, ld) \<and> (dark_frames < 0 \<or> light_frames < 0) \<longrightarrow>
      fst (lazylist R g c dark_frames light_frames seed diff_thr) = Inl ValueError) \<and>
   (sampler_ok R \<longrightarrow> fst (sample_bucket R seed xs 0 g) = Inr []) \<and>
   (dedupe_buckets c diff_thr = Inr (dd, ld) \<and> compute_thr c diff_thr = Inr t \<and> t \<le> 0 \<longrightarrow>
      dd = dark (evaluate_clip (luma c)) \<and> ld = light (evaluate_clip (luma c))) \<and>
   (thr \<le> 0 \<and> sorted_wrt (<) xs \<and> first xs = Inr x0 \<longrightarrow> dedupe_loop xs thr x0 = xs)"
proof (intro conjI impI)
  assume "length stats \<le> start"
  then show "desync stats start = []" by (simp add: desync_def desync_loop_end)
next
  assume "dedupe_buckets c diff_thr = Inl e"
  then show "fst (lazylist R g c dark_frames light_frames seed diff_thr) = Inl e"
    by (simp add: lazylist_def)
next
  assume "dedupe_buckets c diff_thr = Inr (dd, ld) \<and> (dark_frames < 0 \<or> light_frames < 0)"
  then show "fst (lazylist R g c dark_frames light_frames seed diff_thr) = Inl ValueError"
    by (simp add: lazylist_negative_count)
next
  assume ok: "sampler_ok R"
  show "fst (sample_bucket R seed xs 0 g) = Inr []"
  proof (cases "0 < int (length xs)")
    case False
    then show ?thesis by (simp add: fst_sample_bucket)
  next
    case True
    from random_sample_Inr [OF ok, of 0 xs "seed_state R seed"] True
    show ?thesis by (auto simp: fst_sample_bucket)
  qed
next
  assume a: "dedupe_buckets c diff_thr = Inr (dd, ld) \<and> compute_thr c diff_thr = Inr t \<and> t \<le> 0"
  then obtain d0 l0 t' where
    d0: "first (dark (evaluate_clip (luma c))) = Inr d0" and
    l0: "first (light (evaluate_clip (luma c))) = Inr l0" and
    t': "compute_thr c diff_thr = Inr t'" and
    dd: "dd = dedupe_loop (dark (evaluate_clip (luma c))) t' d0" and
    ld: "ld = dedupe_loop (light (evaluate_clip (luma c))) t' l0"
    by (auto elim: dedupe_buckets_Inr)
  from a t' have le: "t' \<le> 0" by simp
  from le strict_dark d0 show "dd = dark (evaluate_clip (luma c))"
    unfolding dd by (rule dedupe_loop_keeps_all)
  from le strict_light l0 show "ld = light (evaluate_clip (luma c))"
    unfolding ld by (rule dedupe_loop_keeps_all)
next
  assume "thr \<le> 0 \<and> sorted_wrt (<) xs \<and> first xs = Inr x0"
  then show "dedupe_loop xs thr x0 = xs" by (simp add: dedupe_loop_keeps_all)
qed

theorem parameters_not_validated_witness:
  "length [0.5 :: real] \<le> 3 \<and> desync [0.5] 3 = [] \<and>
   dedupe_buckets \<lparr>luma = [0.2, 0.3], fps_num = 24, fps_den = 1\<rparr> 15 = Inl IndexError \<and>
   fst (lazylist demo_rng 0 \<lparr>luma = [0.2, 0.3], fps_num = 24, fps_den = 1\<rparr> (- 1) 4 2020 15)
     = Inl IndexError \<and>
   dedupe_buckets \<lparr>luma = [0.2, 0.5], fps_num = 24, fps_den = 1\<rparr> 15 = Inr ([0], [1]) \<and>
   fst (lazylist demo_rng 0 \<lparr>luma = [0.2, 0.5], fps_num = 24, fps_den = 1\<rparr> (- 1) 4 2020 15)
     = Inl ValueError \<and>
   sampler_ok demo_rng \<and> fst (sample_bucket demo_rng 2020 [0, 4] 0 0) = Inr [] \<and>
   dedupe_buckets \<lparr>luma = [0.2, 0.3, 0.5, 0.6], fps_num = 24, fps_den = 1\<rparr> (- 15)
     = Inr ([0, 1], [2, 3]) \<and>
   compute_thr \<lparr>luma = [0.2, 0.3, 0.5, 0.6], fps_num = 24, fps_den = 1\<rparr> (- 15)
     = Inr (- 360) \<and>
   dark (evaluate_clip [0.2, 0.3, 0.5, 0.6]) = [0, 1] \<and>
   light (evaluate_clip [0.2, 0.3, 0.5, 0.6]) = [2, 3] \<and>
   (- 3 :: int) \<le> 0 \<and> sorted_wrt (<) [0, 1, 4 :: int] \<and> first [0, 1, 4] = Inr 0 \<and>
   dedupe_loop [0, 1, 4] (- 3) 0 = [0, 1, 4]"
proof -
  have e1: "dedupe_buckets \<lparr>luma = [0.2, 0.3], fps_num = 24, fps_den = 1\<rparr> 15 = Inl IndexError"
    by code_simp
  have e2: "dedupe_buckets \<lparr>luma = [0.2, 0.5], fps_num = 24, fps_den = 1\<rparr> 15 = Inr ([0], [1])"
    by code_simp
  have e3: "first [0, 1, 4] = Inr 0" by (simp add: first_def)
  have e4: "dedupe_buckets \<lparr>luma = [0.2, 0.3, 0.5, 0.6], fps_num = 24, fps_den = 1\<rparr> (- 15)
     = Inr ([0, 1], [2, 3])"
    by code_simp
  have e5: "compute_thr \<lparr>luma = [0.2, 0.3, 0.5, 0.6], fps_num = 24, fps_den = 1\<rparr> (- 15)
     = Inr (- 360)"
    by code_simp
  from parameters_not_validated [of "[0.5]" 3
      "\<lparr>luma = [0.2, 0.3], fps_num = 24, fps_den = 1\<rparr>" 15 IndexError demo_rng 0 "- 1" 4 2020
      "[]" "[]" "[0, 4]" 0 "- 3" 0]
  have a: "desync [0.5] 3 = [] \<and>
    fst (lazylist demo_rng 0 \<lparr>luma = [0.2, 0.3], fps_num = 24, fps_den = 1\<rparr> (- 1) 4 2020 15)
     = Inl IndexError \<and> fst (sample_bucket demo_rng 2020 [0, 4] 0 0) = Inr []"
    using e1 demo_rng_ok by simp
  from parameters_not_validated [of "[0.5]" 3
      "\<lparr>luma = [0.2, 0.5], fps_num = 24, fps_den = 1\<rparr>" 15 IndexError demo_rng 0 "- 1" 4 2020
      "[0]" "[1]" "[0, 1, 4]" 0 "- 3" 0]
  have b: "fst (lazylist demo_rng 0 \<lparr>luma = [0.2, 0.5], fps_num = 24, fps_den = 1\<rparr> (- 1) 4 2020 15)
     = Inl ValueError \<and> dedupe_loop [0, 1, 4] (- 3) 0 = [0, 1, 4]"
    using e2 e3 by simp
  from parameters_not_validated [of "[0.5]" 3
      "\<lparr>luma = [0.2, 0.3, 0.5, 0.6], fps_num = 24, fps_den = 1\<rparr>" "- 15" IndexError
      demo_rng 0 4 4 2020 "[0, 1]" "[2, 3]" "[0, 1, 4]" "- 360" "- 3" 0]
  have c: "[0, 1] = dark (evaluate_clip [0.2, 0.3, 0.5, 0.6]) \<and>
           [2, 3] = light (evaluate_clip [0.2, 0.3, 0.5, 0.6])"
    using e4 e5 by simp
  from a b c e1 e2 e3 e4 e5 demo_rng_ok show ?thesis by simp
qed

end
